theory Spec2Isabelle
  imports Main "HOL-Library.AList"
begin

section \<open>Text: characters, trimming, upper-casing, line splitting\<close>

text \<open>
  Text is a \<open>string\<close>, one \<open>char\<close> per character, for the characters with code points
  0 to 255. On these the embedding follows Python. \<open>str.strip()\<close> removes the characters
  for which \<open>str.isspace\<close> holds: tab, line feed, vertical tab, form feed, carriage return,
  the four separators 28 to 31, space, and 133 and 160. \<open>str.upper()\<close> maps \<open>a\<close> to \<open>z\<close>
  onto \<open>A\<close> to \<open>Z\<close>, the letters 224 to 254 other than the division sign 247 onto 192 to
  222, the sharp s 223 onto the two characters \<open>SS\<close>, and keeps the other characters. Two
  characters of the range, the micro sign 181 and the y with diaeresis 255, have their
  upper-case forms beyond it (code points 924 and 376); no \<open>char\<close> stands for those, and
  the embedding keeps the two characters as they are. No property below depends on what
  \<open>upper\<close> gives at a character, other than that it is not empty.
\<close>

definition whitespace :: "char list" where
  "whitespace = [CHR 0x09, CHR 0x0A, CHR 0x0B, CHR 0x0C, CHR 0x0D,
                 CHR 0x1C, CHR 0x1D, CHR 0x1E, CHR 0x1F, CHR 0x20, CHR 0x85, CHR 0xA0]"

definition isspace :: "char \<Rightarrow> bool" where
  "isspace c = (c \<in> set whitespace)"

definition lstrip :: "string \<Rightarrow> string" where
  "lstrip s = dropWhile isspace s"

definition rstrip :: "string \<Rightarrow> string" where
  "rstrip s = rev (dropWhile isspace (rev s))"

definition strip :: "string \<Rightarrow> string" where
  "strip s = rstrip (lstrip s)"

definition lower_letters :: "char list" where
  "lower_letters = ''abcdefghijklmnopqrstuvwxyz'' @
     [CHR 0xE0, CHR 0xE1, CHR 0xE2, CHR 0xE3, CHR 0xE4, CHR 0xE5, CHR 0xE6, CHR 0xE7,
      CHR 0xE8, CHR 0xE9, CHR 0xEA, CHR 0xEB, CHR 0xEC, CHR 0xED, CHR 0xEE, CHR 0xEF,
      CHR 0xF0, CHR 0xF1, CHR 0xF2, CHR 0xF3, CHR 0xF4, CHR 0xF5, CHR 0xF6,
      CHR 0xF8, CHR 0xF9, CHR 0xFA, CHR 0xFB, CHR 0xFC, CHR 0xFD, CHR 0xFE]"

definition upper_letters :: "char list" where
  "upper_letters = ''ABCDEFGHIJKLMNOPQRSTUVWXYZ'' @
     [CHR 0xC0, CHR 0xC1, CHR 0xC2, CHR 0xC3, CHR 0xC4, CHR 0xC5, CHR 0xC6, CHR 0xC7,
      CHR 0xC8, CHR 0xC9, CHR 0xCA, CHR 0xCB, CHR 0xCC, CHR 0xCD, CHR 0xCE, CHR 0xCF,
      CHR 0xD0, CHR 0xD1, CHR 0xD2, CHR 0xD3, CHR 0xD4, CHR 0xD5, CHR 0xD6,
      CHR 0xD8, CHR 0xD9, CHR 0xDA, CHR 0xDB, CHR 0xDC, CHR 0xDD, CHR 0xDE]"

text \<open>The upper-case form of one character: one character, or two for the sharp s.\<close>

definition upper_char :: "char \<Rightarrow> string" where
  "upper_char c =
     (if c = CHR 0xDF then ''SS''
      else case map_of (zip lower_letters upper_letters) c of
             Some u \<Rightarrow> [u]
           | None \<Rightarrow> [c])"

definition upper :: "string \<Rightarrow> string" where
  "upper s = concat (map upper_char s)"

abbreviation NL :: char where
  "NL \<equiv> CHR 0x0A"

abbreviation CR :: char where
  "CR \<equiv> CHR 0x0D"

text \<open>
  \<open>fh.readlines()\<close> on a file opened in text mode: the text is cut after every line
  ending, each line keeps its ending, and the endings \<open>\r\n\<close> and \<open>\r\<close> are read as
  \<open>\n\<close> (universal newlines). \<open>readlines_from cur s\<close> has \<open>cur\<close> as the line read so far.
\<close>

fun readlines_from :: "string \<Rightarrow> string \<Rightarrow> string list" where
  "readlines_from cur [] = (if cur = [] then [] else [cur])"
| "readlines_from cur (c # cs) =
     (if c = NL then (cur @ [NL]) # readlines_from [] cs
      else if c = CR then
        (case cs of
           [] \<Rightarrow> [cur @ [NL]]
         | d # ds \<Rightarrow> if d = NL then (cur @ [NL]) # readlines_from [] ds
                     else (cur @ [NL]) # readlines_from [] cs)
      else readlines_from (cur @ [c]) cs)"

definition readlines :: "string \<Rightarrow> string list" where
  "readlines s = readlines_from [] s"

section \<open>Errors\<close>

datatype error =
    DuplicateHeader string    \<comment> \<open>ProtfastaException: Found non-unique FASTA header\<close>
  | FileNotFound string       \<comment> \<open>ProtfastaException: Unable to find file\<close>
  | ConfigError string        \<comment> \<open>ProtfastaException raised by \<open>check_inputs\<close>\<close>
  | UnboundLocalError string  \<comment> \<open>a local name read before it was assigned\<close>

section \<open>The parser\<close>

text \<open>
  The local variables of \<open>_parse_fasta_all\<close>. \<open>return_data\<close> is the list of
  \<open>[header, sequence]\<close> pairs in list mode and the dictionary in dict mode, kept as an
  association list in insertion order, which is the order a Python dictionary iterates in.
  \<open>all_headers\<close> exists in list mode only and stays empty otherwise.
\<close>

record pstate =
  seq :: string
  header :: string
  return_data :: "(string \<times> string) list"
  all_headers :: "string list"

text \<open>The two closures, selected by \<open>mode\<close>; with any other mode neither name is bound.\<close>

definition check_duplicate :: "string \<Rightarrow> bool \<Rightarrow> pstate \<Rightarrow> error + unit" where
  "check_duplicate mode expect_unique_header st =
     (if mode = ''dict'' then
        (if header st \<in> fst ` set (return_data st)
         then Inl (DuplicateHeader (header st)) else Inr ())
      else if mode = ''list'' then
        (if expect_unique_header then
           (if header st \<in> set (all_headers st)
            then Inl (DuplicateHeader (header st)) else Inr ())
         else Inr ())
      else Inl (UnboundLocalError ''check_duplicate''))"

definition update :: "string \<Rightarrow> pstate \<Rightarrow> error + pstate" where
  "update mode st =
     (if mode = ''dict'' then
        Inr (st\<lparr>return_data := AList.update (header st) (upper (seq st)) (return_data st)\<rparr>)
      else if mode = ''list'' then
        Inr (st\<lparr>return_data := return_data st @ [(header st, upper (seq st))],
                all_headers := all_headers st @ [header st]\<rparr>)
      else Inl (UnboundLocalError ''update''))"

definition finalize :: "string \<Rightarrow> bool \<Rightarrow> pstate \<Rightarrow> error + pstate" where
  "finalize mode expect_unique_header st =
     (case check_duplicate mode expect_unique_header st of
        Inl e \<Rightarrow> Inl e
      | Inr _ \<Rightarrow> update mode st)"

definition new_header :: "(string \<Rightarrow> string) option \<Rightarrow> string \<Rightarrow> string" where
  "new_header header_parser h = (case header_parser of Some f \<Rightarrow> f h | None \<Rightarrow> h)"

text \<open>
  The body of \<open>for line in content\<close>. The header parser is \<open>None\<close> or a function from
  strings to strings, which is what \<open>check_inputs\<close> asks of it.
\<close>

fun parse_loop ::
  "string \<Rightarrow> bool \<Rightarrow> (string \<Rightarrow> string) option \<Rightarrow> string list \<Rightarrow> pstate \<Rightarrow> error + pstate"
where
  "parse_loop mode euh hp [] st = Inr st"
| "parse_loop mode euh hp (line # content) st =
     (let sline = strip line in
      if length sline = 0 then parse_loop mode euh hp content st
      else if hd sline = CHR ''>'' then
        (let h = tl sline in
         case (if length (seq st) > 0 then finalize mode euh st else Inr st) of
           Inl e \<Rightarrow> Inl e
         | Inr st' \<Rightarrow>
             parse_loop mode euh hp content (st'\<lparr>header := new_header hp h, seq := []\<rparr>))
      else parse_loop mode euh hp content (st\<lparr>seq := seq st @ sline\<rparr>))"

text \<open>
  \<open>_parse_fasta_all\<close>. The progress message of \<open>verbose\<close> only prints and is left out,
  except that with a mode other than \<open>dict\<close> and \<open>list\<close> the name \<open>return_data\<close> is
  unbound when it is returned.
\<close>

definition parse_fasta_all ::
  "string list \<Rightarrow> string \<Rightarrow> bool \<Rightarrow> (string \<Rightarrow> string) option \<Rightarrow> error + (string \<times> string) list"
where
  "parse_fasta_all content mode expect_unique_header header_parser =
     (case parse_loop mode expect_unique_header header_parser content
             \<lparr>seq = [], header = [], return_data = [], all_headers = []\<rparr> of
        Inl e \<Rightarrow> Inl e
      | Inr st \<Rightarrow>
          (case (if length (seq st) > 0 then finalize mode expect_unique_header st else Inr st) of
             Inl e \<Rightarrow> Inl e
           | Inr st' \<Rightarrow>
               if mode = ''dict'' \<or> mode = ''list'' then Inr (return_data st')
               else Inl (UnboundLocalError ''return_data'')))"


section \<open>The writer\<close>

text \<open>
  \<open>write_fasta_file\<close>. The dictionary is the list of its \<open>(key, sequence)\<close> entries in
  iteration order. \<open>linelength\<close> is \<open>None\<close> for Python's \<open>None\<close> and \<open>False\<close> and
  \<open>Some n\<close> for the integer \<open>n\<close>. The state is the text written to the file so far and
  the local \<open>wrotenewline\<close>, which is \<open>None\<close> until its first assignment: it is a local
  of the function, not of one pass of the loop over the entries, and keeps its value from
  one entry to the next.
\<close>

definition normalise_linelength :: "int option \<Rightarrow> int option" where
  "normalise_linelength linelength =
     (case linelength of
        None \<Rightarrow> None
      | Some n \<Rightarrow> if n = 0 \<or> n < 1 then None else Some n)"

record wstate =
  out :: string
  wrotenewline :: "bool option"

text \<open>\<open>for i in range(0, len(seq))\<close>, from index \<open>i\<close> on, over the characters left.\<close>

fun write_chars :: "int option \<Rightarrow> nat \<Rightarrow> string \<Rightarrow> wstate \<Rightarrow> wstate" where
  "write_chars linelength i [] st = st"
| "write_chars linelength i (c # cs) st =
     (let st1 = st\<lparr>out := out st @ [c], wrotenewline := Some False\<rparr>;
          st2 = (case linelength of
                   None \<Rightarrow> st1
                 | Some n \<Rightarrow>
                     if (int i + 1) mod n = 0
                     then st1\<lparr>out := out st1 @ [NL], wrotenewline := Some True\<rparr>
                     else st1)
      in write_chars linelength (i + 1) cs st2)"

text \<open>
  \<open>for key in sequence_dict\<close>. The result is the text in the file when the function
  ends and the exception it ended with, if any.
\<close>

fun write_entries ::
  "int option \<Rightarrow> (string \<times> string) list \<Rightarrow> wstate \<Rightarrow> string \<times> error option"
where
  "write_entries linelength [] st = (out st, None)"
| "write_entries linelength ((key, sq) # rest) st =
     (let st1 = st\<lparr>out := out st @ ''>'' @ key @ [NL]\<rparr>;
          st2 = write_chars linelength 0 sq st1
      in case wrotenewline st2 of
           None \<Rightarrow> (out st2, Some (UnboundLocalError ''wrotenewline''))
         | Some True \<Rightarrow> write_entries linelength rest (st2\<lparr>out := out st2 @ [NL]\<rparr>)
         | Some False \<Rightarrow> write_entries linelength rest (st2\<lparr>out := out st2 @ [NL, NL]\<rparr>))"

definition write_fasta_file ::
  "(string \<times> string) list \<Rightarrow> int option \<Rightarrow> string \<times> error option"
where
  "write_fasta_file sequence_dict linelength =
     write_entries (normalise_linelength linelength) sequence_dict
       \<lparr>out = [], wrotenewline = None\<rparr>"

section \<open>Input validation\<close>

text \<open>
  \<open>check_inputs\<close> inspects the types of its arguments, so they are Python objects. A
  string object has an identity (its address) besides its text: \<open>==\<close> and \<open>in\<close> compare
  the text, \<open>is\<close> compares the identity. A function object is the function from its
  argument to the object it returns, \<open>None\<close> when the call raises. The messages of the
  exceptions are shortened to the keyword they name.
\<close>

datatype pyobj =
    PyNone
  | PyBool bool
  | PyInt int
  | PyStr nat string
  | PyFunc "string \<Rightarrow> pyobj option"

definition is_bool :: "pyobj \<Rightarrow> bool" where
  "is_bool x = (case x of PyBool _ \<Rightarrow> True | _ \<Rightarrow> False)"

definition is_str :: "pyobj \<Rightarrow> bool" where
  "is_str x = (case x of PyStr _ _ \<Rightarrow> True | _ \<Rightarrow> False)"

definition is_none :: "pyobj \<Rightarrow> bool" where
  "is_none x = (case x of PyNone \<Rightarrow> True | _ \<Rightarrow> False)"

definition callable :: "pyobj \<Rightarrow> bool" where
  "callable x = (case x of PyFunc _ \<Rightarrow> True | _ \<Rightarrow> False)"

text \<open>\<open>x in [...]\<close> for a list of string literals: some literal has the text of \<open>x\<close>.\<close>

definition in_literals :: "pyobj \<Rightarrow> string list \<Rightarrow> bool" where
  "in_literals x lits = (case x of PyStr _ s \<Rightarrow> s \<in> set lits | _ \<Rightarrow> False)"

text \<open>
  The string literal \<open>'ignore'\<close> of the module is one object, at address \<open>0\<close>;
  \<open>x is 'ignore'\<close> holds when \<open>x\<close> is that object. \<open>True\<close> is the only object of its
  value.
\<close>

definition ignore_literal :: pyobj where
  "ignore_literal = PyStr 0 ''ignore''"

definition py_is :: "pyobj \<Rightarrow> pyobj \<Rightarrow> bool" where
  "py_is x y =
     (case (x, y) of
        (PyNone, PyNone) \<Rightarrow> True
      | (PyBool a, PyBool b) \<Rightarrow> a = b
      | (PyStr a _, PyStr b _) \<Rightarrow> a = b
      | _ \<Rightarrow> False)"

text \<open>The trial call of \<open>header_parser\<close>: it returns, and what it returns is a string.\<close>

definition header_parser_works :: "pyobj \<Rightarrow> bool" where
  "header_parser_works header_parser =
     (case header_parser of
        PyFunc f \<Rightarrow>
          (case f ''this test string should work'' of
             Some a \<Rightarrow> is_str a
           | None \<Rightarrow> False)
      | _ \<Rightarrow> False)"

definition check_inputs ::
  "pyobj \<Rightarrow> pyobj \<Rightarrow> pyobj \<Rightarrow> pyobj \<Rightarrow> pyobj \<Rightarrow> pyobj \<Rightarrow> pyobj \<Rightarrow> pyobj \<Rightarrow> error + unit"
where
  "check_inputs expect_unique_header header_parser duplicate_record_action
       duplicate_sequence_action invalid_sequence_action return_list output_filename verbose =
     (if \<not> is_bool expect_unique_header then
        Inl (ConfigError ''expect_unique_header must be a boolean'')
      else if \<not> is_none header_parser \<and> \<not> callable header_parser then
        Inl (ConfigError ''header_parser must be a function'')
      else if \<not> is_none header_parser \<and> \<not> header_parser_works header_parser then
        Inl (ConfigError ''Something went wrong when testing the header_parser function'')
      else if \<not> in_literals duplicate_record_action [''ignore'', ''fail'', ''remove''] then
        Inl (ConfigError ''invalid_sequence must be one of ignore, fail, remove'')
      else if \<not> in_literals duplicate_sequence_action [''ignore'', ''fail'', ''remove''] then
        Inl (ConfigError ''invalid_sequence must be one of ignore, fail, remove'')
      else if \<not> in_literals invalid_sequence_action
                   [''ignore'', ''fail'', ''remove'', ''convert''] then
        Inl (ConfigError ''invalid_sequence must be one of ignore, fail, remove, convert'')
      else if \<not> is_bool return_list then
        Inl (ConfigError ''verbose must be a boolean'')
      else if \<not> is_none output_filename \<and> \<not> is_str output_filename then
        Inl (ConfigError ''output_filename must be a string'')
      else if \<not> is_bool verbose then
        Inl (ConfigError ''verbose must be a boolean'')
      else if py_is duplicate_record_action ignore_literal
              \<and> py_is expect_unique_header (PyBool True) then
        Inl (ConfigError ''Cannot expect unique headers and ignore duplicate records'')
      else Inr ())"

section \<open>The records of an input, as the specification describes them\<close>

text \<open>
  The specification's line classifier: a line that is empty after trimming is blank, a
  line whose first character after trimming is \<open>>\<close> is a header line, any other line is
  a sequence fragment. None of the definitions of this section is taken from the parser;
  they state what it is compared with.
\<close>

definition is_blank :: "string \<Rightarrow> bool" where
  "is_blank line = (strip line = [])"

definition is_header :: "string \<Rightarrow> bool" where
  "is_header line = (strip line \<noteq> [] \<and> hd (strip line) = CHR ''>'')"

definition is_fragment :: "string \<Rightarrow> bool" where
  "is_fragment line = (\<not> is_blank line \<and> \<not> is_header line)"

definition header_text :: "(string \<Rightarrow> string) option \<Rightarrow> string \<Rightarrow> string" where
  "header_text hp line = (case hp of Some f \<Rightarrow> f (tl (strip line)) | None \<Rightarrow> tl (strip line))"

text \<open>The text of the sequence fragments among some lines, trimmed and joined.\<close>

definition fragments :: "string list \<Rightarrow> string" where
  "fragments ls = concat (map strip (filter is_fragment ls))"

text \<open>
  \<open>groups hp h s content\<close> cuts the lines at the header lines: the first group has the
  header \<open>h\<close> and starts with the text \<open>s\<close>, every header line opens a new group, and a
  group's text is that of the fragments up to the next header line or the end.
\<close>

fun groups ::
  "(string \<Rightarrow> string) option \<Rightarrow> string \<Rightarrow> string \<Rightarrow> string list \<Rightarrow> (string \<times> string) list"
where
  "groups hp h s [] = [(h, s)]"
| "groups hp h s (l # ls) =
     (if is_blank l then groups hp h s ls
      else if is_header l then (h, s) # groups hp (header_text hp l) [] ls
      else groups hp h (s @ strip l) ls)"

text \<open>
  The groups of a whole input. The first one has no header line: it holds the fragments
  before the first header line, under the empty header.
\<close>

definition input_groups :: "(string \<Rightarrow> string) option \<Rightarrow> string list \<Rightarrow> (string \<times> string) list" where
  "input_groups hp content = groups hp [] [] content"

text \<open>A group becomes a record when its text is not empty; the record stores it upper-cased.\<close>

definition emitted :: "(string \<times> string) list \<Rightarrow> (string \<times> string) list" where
  "emitted gs = filter (\<lambda>(h, s). s \<noteq> []) gs"

definition stored :: "(string \<times> string) list \<Rightarrow> (string \<times> string) list" where
  "stored gs = map (\<lambda>(h, s). (h, upper s)) gs"

text \<open>The first element that repeats an element of \<open>seen\<close> or an earlier one.\<close>

fun first_duplicate :: "'a list \<Rightarrow> 'a list \<Rightarrow> 'a option" where
  "first_duplicate seen [] = None"
| "first_duplicate seen (x # xs) =
     (if x \<in> set seen then Some x else first_duplicate (seen @ [x]) xs)"

text \<open>
  Whether headers are checked: always for a mapping, and for a list when unique headers
  are expected.
\<close>

definition checks_headers :: "string \<Rightarrow> bool \<Rightarrow> bool" where
  "checks_headers mode expect_unique_header = (mode = ''dict'' \<or> expect_unique_header)"

text \<open>
  The outcome the specification gives for an input: the exception for the first repeated
  header among the records when headers are checked and one repeats, all the records in
  input order otherwise.
\<close>

definition expected_outcome ::
  "string \<Rightarrow> bool \<Rightarrow> (string \<Rightarrow> string) option \<Rightarrow> string list \<Rightarrow> error + (string \<times> string) list"
where
  "expected_outcome mode expect_unique_header hp content =
     (let recs = emitted (input_groups hp content) in
      case (if checks_headers mode expect_unique_header
            then first_duplicate [] (map fst recs) else None) of
        Some h \<Rightarrow> Inl (DuplicateHeader h)
      | None \<Rightarrow> Inr (stored recs))"

text \<open>The commits one after the other, from the records \<open>rd\<close> committed so far.\<close>

fun commit_all ::
  "bool \<Rightarrow> (string \<times> string) list \<Rightarrow> (string \<times> string) list \<Rightarrow> error + (string \<times> string) list"
where
  "commit_all chk rd [] = Inr rd"
| "commit_all chk rd ((h, s) # gs) =
     (if s = [] then commit_all chk rd gs
      else if chk \<and> h \<in> fst ` set rd then Inl (DuplicateHeader h)
      else commit_all chk (rd @ [(h, upper s)]) gs)"

text \<open>
  An input written out block by block: each block is a header line and the lines that
  follow it up to the next header line.
\<close>

definition block_lines :: "(string \<times> string list) list \<Rightarrow> string list" where
  "block_lines es = concat (map (\<lambda>(hl, body). hl # body) es)"

definition block_groups ::
  "(string \<Rightarrow> string) option \<Rightarrow> (string \<times> string list) list \<Rightarrow> (string \<times> string) list"
where
  "block_groups hp es = map (\<lambda>(hl, body). (header_text hp hl, fragments body)) es"

text \<open>The lines before the first header line.\<close>

definition leading_lines :: "string list \<Rightarrow> string list" where
  "leading_lines content = takeWhile (\<lambda>l. \<not> is_header l) content"

section \<open>The text of a record, as the specification describes it\<close>

text \<open>
  With a line length \<open>n\<close>, a line break follows the character of index \<open>i\<close> (from
  \<open>0\<close>) when \<open>i + 1\<close> is a multiple of \<open>n\<close>; without a line length none does.
\<close>

definition breaks_after :: "int option \<Rightarrow> nat \<Rightarrow> bool" where
  "breaks_after linelength i =
     (case linelength of None \<Rightarrow> False | Some n \<Rightarrow> (int i + 1) mod n = 0)"

text \<open>The characters from index \<open>i\<close> on, with their line breaks.\<close>

fun wrapped :: "int option \<Rightarrow> nat \<Rightarrow> string \<Rightarrow> string" where
  "wrapped linelength i [] = []"
| "wrapped linelength i (c # cs) =
     c # (if breaks_after linelength i then [NL] else []) @ wrapped linelength (i + 1) cs"

text \<open>
  What ends a record: one line break when the last character was followed by one, two
  otherwise.
\<close>

definition separator :: "int option \<Rightarrow> string \<Rightarrow> string" where
  "separator linelength sq =
     (if breaks_after linelength (length sq - 1) then [NL] else [NL, NL])"

definition entry_text :: "int option \<Rightarrow> string \<times> string \<Rightarrow> string" where
  "entry_text linelength e =
     ''>'' @ fst e @ [NL] @ wrapped linelength 0 (snd e) @ separator linelength (snd e)"

section \<open>Auxiliary notions for the proofs\<close>

text \<open>
  The end of \<open>_parse_fasta_all\<close> after the loop, the loop followed by that end from any
  state, the two modes the function knows, and the invariant of list mode: the headers
  kept in \<open>all_headers\<close> are those of the records.
\<close>

definition finish :: "string \<Rightarrow> bool \<Rightarrow> pstate \<Rightarrow> error + (string \<times> string) list" where
  "finish mode euh st =
     (case (if length (seq st) > 0 then finalize mode euh st else Inr st) of
        Inl e \<Rightarrow> Inl e
      | Inr st' \<Rightarrow> Inr (return_data st'))"

definition run ::
  "string \<Rightarrow> bool \<Rightarrow> (string \<Rightarrow> string) option \<Rightarrow> string list \<Rightarrow> pstate \<Rightarrow> error + (string \<times> string) list"
where
  "run mode euh hp content st =
     (case parse_loop mode euh hp content st of Inl e \<Rightarrow> Inl e | Inr st' \<Rightarrow> finish mode euh st')"

definition known_mode :: "string \<Rightarrow> bool" where
  "known_mode mode = (mode = ''dict'' \<or> mode = ''list'')"

definition headers_recorded :: "string \<Rightarrow> pstate \<Rightarrow> bool" where
  "headers_recorded mode st = (mode = ''list'' \<longrightarrow> all_headers st = map fst (return_data st))"

section \<open>Properties\<close>

subsection \<open>Evaluation\<close>

lemmas text_eval = strip_def rstrip_def lstrip_def isspace_def whitespace_def
  upper_def upper_char_def lower_letters_def upper_letters_def readlines_def

lemmas parser_eval = parse_fasta_all_def finalize_def check_duplicate_def update_def
  new_header_def Let_def

lemmas writer_eval = write_fasta_file_def normalise_linelength_def Let_def

lemmas check_eval = check_inputs_def is_bool_def is_str_def is_none_def callable_def
  in_literals_def py_is_def ignore_literal_def header_parser_works_def

subsection \<open>The duplicate-header policy on a concrete input\<close>

text \<open>
  Claim C5. The text \<open>>A\nXYZ\n>A\nQRS\n\<close>, read into lines and parsed in list mode,
  raises the exception for the non-unique header \<open>A\<close> when unique headers are expected,
  and gives the two records \<open>[A, XYZ]\<close> and \<open>[A, QRS]\<close>, both headed \<open>A\<close>, when they
  are not.
\<close>

theorem duplicate_header_policy_example:
  "parse_fasta_all (readlines (''>A'' @ [NL] @ ''XYZ'' @ [NL] @ ''>A'' @ [NL] @ ''QRS'' @ [NL]))
       ''list'' True None
     = Inl (DuplicateHeader ''A'')
   \<and> parse_fasta_all (readlines (''>A'' @ [NL] @ ''XYZ'' @ [NL] @ ''>A'' @ [NL] @ ''QRS'' @ [NL]))
       ''list'' False None
     = Inr [(''A'', ''XYZ''), (''A'', ''QRS'')]"
  by (simp add: text_eval parser_eval)

subsection \<open>The parser computes the specified outcome\<close>

lemma update_fresh: "k \<notin> fst ` set al \<Longrightarrow> AList.update k v al = al @ [(k, v)]"
  by (induction al) auto

lemma parse_fasta_all_run:
  "known_mode mode \<Longrightarrow>
   parse_fasta_all content mode euh hp
     = run mode euh hp content \<lparr>seq = [], header = [], return_data = [], all_headers = []\<rparr>"
  by (auto simp: parse_fasta_all_def run_def finish_def known_mode_def split: sum.splits)

lemma finalize_commit:
  assumes "known_mode mode" "headers_recorded mode st"
  shows "finalize mode euh st =
     (if checks_headers mode euh \<and> header st \<in> fst ` set (return_data st)
      then Inl (DuplicateHeader (header st))
      else Inr (st\<lparr>return_data := return_data st @ [(header st, upper (seq st))],
                    all_headers := (if mode = ''list'' then all_headers st @ [header st]
                                    else all_headers st)\<rparr>))"
  using assms
  by (auto simp: finalize_def check_duplicate_def update_def known_mode_def headers_recorded_def
                 checks_headers_def update_fresh)

lemma run_Nil:
  assumes "known_mode mode" "headers_recorded mode st"
  shows "run mode euh hp [] st
           = commit_all (checks_headers mode euh) (return_data st) [(header st, seq st)]"
  using assms by (simp add: run_def finish_def finalize_commit)

lemma run_Cons:
  "run mode euh hp (l # ls) st =
     (if is_blank l then run mode euh hp ls st
      else if is_header l then
        (case (if seq st \<noteq> [] then finalize mode euh st else Inr st) of
           Inl e \<Rightarrow> Inl e
         | Inr st' \<Rightarrow> run mode euh hp ls (st'\<lparr>header := header_text hp l, seq := []\<rparr>))
      else run mode euh hp ls (st\<lparr>seq := seq st @ strip l\<rparr>))"
  by (simp add: run_def is_blank_def is_header_def header_text_def new_header_def Let_def
           split: sum.splits)

lemma headers_recorded_simps [simp]:
  "headers_recorded mode (st\<lparr>header := h, seq := s\<rparr>) = headers_recorded mode st"
  "headers_recorded mode (st\<lparr>seq := s\<rparr>) = headers_recorded mode st"
  "headers_recorded mode (st\<lparr>header := h\<rparr>) = headers_recorded mode st"
  by (simp_all add: headers_recorded_def)

lemma headers_recorded_commit:
  "headers_recorded mode st \<Longrightarrow>
   headers_recorded mode
     (st\<lparr>return_data := return_data st @ [(header st, v)],
         all_headers := (if mode = ''list'' then all_headers st @ [header st]
                         else all_headers st)\<rparr>)"
  by (simp add: headers_recorded_def)

lemma run_groups:
  assumes "known_mode mode" "headers_recorded mode st"
  shows "run mode euh hp content st
           = commit_all (checks_headers mode euh) (return_data st)
               (groups hp (header st) (seq st) content)"
  using assms(2)
proof (induction content arbitrary: st)
  case Nil
  then show ?case using run_Nil[OF assms(1)] by simp
next
  case (Cons l ls)
  note inv = Cons.prems
  consider (blank) "is_blank l"
    | (head_empty) "\<not> is_blank l" "is_header l" "seq st = []"
    | (head_full) "\<not> is_blank l" "is_header l" "seq st \<noteq> []"
    | (frag) "\<not> is_blank l" "\<not> is_header l"
    by blast
  then show ?case
  proof cases
    case blank
    then show ?thesis using Cons.IH[OF inv] by (simp add: run_Cons)
  next
    case head_empty
    have "headers_recorded mode (st\<lparr>header := header_text hp l, seq := []\<rparr>)"
      using inv by simp
    from Cons.IH[OF this] head_empty show ?thesis by (simp add: run_Cons)
  next
    case head_full
    show ?thesis
    proof (cases "checks_headers mode euh \<and> header st \<in> fst ` set (return_data st)")
      case True
      then show ?thesis using head_full
        by (simp add: run_Cons finalize_commit[OF assms(1) inv])
    next
      case False
      let ?st' = "st\<lparr>return_data := return_data st @ [(header st, upper (seq st))],
                      all_headers := (if mode = ''list'' then all_headers st @ [header st]
                                      else all_headers st)\<rparr>"
      have "headers_recorded mode (?st'\<lparr>header := header_text hp l, seq := []\<rparr>)"
        using headers_recorded_commit[OF inv] by simp
      from Cons.IH[OF this] False head_full show ?thesis
        by (auto simp: run_Cons finalize_commit[OF assms(1) inv])
    qed
  next
    case frag
    have "headers_recorded mode (st\<lparr>seq := seq st @ strip l\<rparr>)"
      using inv by simp
    from Cons.IH[OF this] frag show ?thesis by (simp add: run_Cons)
  qed
qed

lemma first_duplicate_None:
  "first_duplicate seen xs = None \<longleftrightarrow> distinct xs \<and> set seen \<inter> set xs = {}"
  by (induction xs arbitrary: seen) auto

lemma emitted_simps [simp]:
  "emitted [] = []"
  "emitted ((h, s) # gs) = (if s = [] then emitted gs else (h, s) # emitted gs)"
  by (simp_all add: emitted_def)

lemma stored_simps [simp]:
  "stored [] = []"
  "stored ((h, s) # gs) = (h, upper s) # stored gs"
  "stored (gs @ gs') = stored gs @ stored gs'"
  by (simp_all add: stored_def)

lemma commit_all_outcome:
  "commit_all chk rd gs =
     (case (if chk then first_duplicate (map fst rd) (map fst (emitted gs)) else None) of
        Some h \<Rightarrow> Inl (DuplicateHeader h)
      | None \<Rightarrow> Inr (rd @ stored (emitted gs)))"
proof (induction chk rd gs rule: commit_all.induct)
  case (1 chk rd)
  then show ?case by simp
next
  case (2 chk rd h s gs)
  then show ?case by (cases "s = []") (auto simp: image_iff split: option.splits)
qed

lemma parser_refines:
  assumes "known_mode mode"
  shows "parse_fasta_all content mode euh hp = expected_outcome mode euh hp content"
  using assms
  by (simp add: parse_fasta_all_run run_groups headers_recorded_def commit_all_outcome
                expected_outcome_def input_groups_def Let_def split: option.splits)

lemmas spec_eval = is_blank_def is_header_def is_fragment_def header_text_def fragments_def
  block_lines_def block_groups_def leading_lines_def input_groups_def emitted_def stored_def

subsection \<open>The groups of an input given block by block\<close>

lemma fragments_simps [simp]:
  "fragments [] = []"
  "fragments (l # ls) = (if is_fragment l then strip l @ fragments ls else fragments ls)"
  "fragments (ls @ ls') = fragments ls @ fragments ls'"
  by (simp_all add: fragments_def)

lemma groups_not_header:
  "\<not> is_header l \<Longrightarrow>
   groups hp h s (l # ls) = groups hp h (s @ (if is_fragment l then strip l else [])) ls"
  by (simp add: is_fragment_def)

lemma groups_body:
  "\<forall>l\<in>set body. \<not> is_header l \<Longrightarrow>
   groups hp h s (body @ rest) = groups hp h (s @ fragments body) rest"
proof (induction body arbitrary: s)
  case Nil
  then show ?case by simp
next
  case (Cons l body)
  then show ?case by (simp add: groups_not_header del: groups.simps)
qed

lemma groups_header:
  "is_header l \<Longrightarrow> groups hp h s (l # ls) = (h, s) # groups hp (header_text hp l) [] ls"
  by (simp add: is_header_def is_blank_def)

lemma groups_blocks:
  "\<forall>(hl, body)\<in>set es. is_header hl \<and> (\<forall>b\<in>set body. \<not> is_header b) \<Longrightarrow>
   groups hp h s (block_lines es) = (h, s) # block_groups hp es"
proof (induction es arbitrary: h s)
  case Nil
  then show ?case by (simp add: block_lines_def block_groups_def)
next
  case (Cons e es)
  obtain hl body where e: "e = (hl, body)" by (cases e)
  from Cons.prems e have hl: "is_header hl" and body: "\<forall>b\<in>set body. \<not> is_header b"
    and rest: "\<forall>(hl, body)\<in>set es. is_header hl \<and> (\<forall>b\<in>set body. \<not> is_header b)"
    by auto
  have "groups hp h s (block_lines (e # es)) = groups hp h s (hl # body @ block_lines es)"
    by (simp add: e block_lines_def)
  also have "\<dots> = (h, s) # groups hp (header_text hp hl) [] (body @ block_lines es)"
    by (rule groups_header[OF hl])
  also have "\<dots> = (h, s) # groups hp (header_text hp hl) (fragments body) (block_lines es)"
    using groups_body[OF body, of hp "header_text hp hl" "[]"] by simp
  also have "\<dots> = (h, s) # (header_text hp hl, fragments body) # block_groups hp es"
    using Cons.IH[OF rest] by simp
  finally show ?case by (simp add: e block_groups_def)
qed

lemma input_groups_blocks:
  assumes "\<forall>l\<in>set pre. \<not> is_header l"
    and "\<forall>(hl, body)\<in>set es. is_header hl \<and> (\<forall>b\<in>set body. \<not> is_header b)"
  shows "input_groups hp (pre @ block_lines es) = ([], fragments pre) # block_groups hp es"
  using groups_body[OF assms(1), of hp "[]" "[]"] groups_blocks[OF assms(2)]
  by (simp add: input_groups_def)

text \<open>
  Every input is some lines without a header line followed by blocks, so the statements
  below about inputs of this form are statements about every input.
\<close>

lemma every_input_is_blocks:
  "\<exists>pre es. content = pre @ block_lines es \<and> (\<forall>l\<in>set pre. \<not> is_header l)
      \<and> (\<forall>(hl, body)\<in>set es. is_header hl \<and> (\<forall>b\<in>set body. \<not> is_header b))"
proof (induction content)
  case Nil
  show ?case
    by (rule exI[of _ "[]"], rule exI[of _ "[]"]) (simp add: block_lines_def)
next
  case (Cons l ls)
  then obtain pre es where d: "ls = pre @ block_lines es" "\<forall>l\<in>set pre. \<not> is_header l"
    "\<forall>(hl, body)\<in>set es. is_header hl \<and> (\<forall>b\<in>set body. \<not> is_header b)" by blast
  show ?case
  proof (cases "is_header l")
    case True
    show ?thesis
      by (rule exI[of _ "[]"], rule exI[of _ "(l, pre) # es"])
         (use True d in \<open>simp add: block_lines_def\<close>)
  next
    case False
    show ?thesis
      by (rule exI[of _ "l # pre"], rule exI[of _ es]) (use False d in simp)
  qed
qed

lemma groups_first:
  "\<exists>rest. groups hp h s content = (h, s @ fragments (leading_lines content)) # rest"
proof (induction content arbitrary: s)
  case Nil
  then show ?case by (simp add: leading_lines_def)
next
  case (Cons l ls)
  show ?case
  proof (cases "is_header l")
    case True
    then show ?thesis by (simp add: groups_header leading_lines_def del: groups.simps)
  next
    case False
    from Cons.IH[of "s @ (if is_fragment l then strip l else [])"]
    show ?thesis
      using False by (auto simp: groups_not_header leading_lines_def simp del: groups.simps)
  qed
qed

subsection \<open>Facts about the specified outcome\<close>

lemma known_mode_iff: "known_mode mode \<longleftrightarrow> mode = ''list'' \<or> mode = ''dict''"
  by (auto simp: known_mode_def)

lemma is_blank_not_header: "is_blank l \<Longrightarrow> \<not> is_header l"
  by (simp add: is_blank_def is_header_def)

lemma is_blank_not_fragment: "is_blank l \<Longrightarrow> \<not> is_fragment l"
  by (simp add: is_fragment_def)

lemma fragments_blank: "\<forall>l\<in>set ls. is_blank l \<Longrightarrow> fragments ls = []"
  by (induction ls) (simp_all add: is_blank_not_fragment)

lemma fragments_nonempty: "\<exists>b\<in>set body. is_fragment b \<Longrightarrow> fragments body \<noteq> []"
  by (induction body) (auto simp: is_fragment_def is_blank_def)

lemma emitted_all:
  "\<forall>(h, s)\<in>set gs. s \<noteq> [] \<Longrightarrow> emitted gs = gs"
  by (induction gs) auto

lemma upper_char_nonempty: "upper_char c \<noteq> []"
  by (simp add: upper_char_def split: option.splits)

lemma upper_empty [simp]: "upper s = [] \<longleftrightarrow> s = []"
  by (cases s) (simp_all add: upper_def upper_char_nonempty)

lemma stored_emitted_nonempty: "(h, s) \<in> set (stored (emitted gs)) \<Longrightarrow> s \<noteq> []"
  by (auto simp: stored_def emitted_def)

lemma expected_outcome_unchecked:
  "\<not> checks_headers mode euh \<Longrightarrow>
   expected_outcome mode euh hp content = Inr (stored (emitted (input_groups hp content)))"
  by (simp add: expected_outcome_def)

lemma expected_outcome_Inr:
  "expected_outcome mode euh hp content = Inr recs \<Longrightarrow>
   recs = stored (emitted (input_groups hp content))"
  by (auto simp: expected_outcome_def Let_def split: option.splits if_splits)

lemma expected_outcome_distinct:
  "distinct (map fst (emitted (input_groups hp content))) \<Longrightarrow>
   expected_outcome mode euh hp content = Inr (stored (emitted (input_groups hp content)))"
  by (simp add: expected_outcome_def Let_def first_duplicate_None[THEN iffD2])

subsection \<open>Well-formed inputs in list mode\<close>

text \<open>
  Claim C1. A well-formed input is some blank lines followed by \<open>N\<close> blocks, each a header
  line and the lines up to the next header line, none of them a header line and at least
  one a sequence fragment. When the headers (after the header parser) are distinct, list
  mode returns exactly one record per block, in the order of the blocks, whatever the
  unique-header flag: the header, and the upper-cased text of the block's fragments,
  trimmed and joined in order without separator. Blank lines may stand anywhere in a
  block: they add nothing to \<open>fragments\<close> and do not end the block.
\<close>

theorem well_formed_list_parse:
  assumes "\<forall>l\<in>set pre. is_blank l"
    and "\<forall>(hl, body)\<in>set es.
           is_header hl \<and> (\<forall>b\<in>set body. \<not> is_header b) \<and> (\<exists>b\<in>set body. is_fragment b)"
    and "distinct (map (\<lambda>(hl, body). header_text hp hl) es)"
  shows "parse_fasta_all (pre @ block_lines es) ''list'' euh hp
           = Inr (map (\<lambda>(hl, body). (header_text hp hl, upper (fragments body))) es)"
proof -
  have pre: "\<forall>l\<in>set pre. \<not> is_header l" using assms(1) is_blank_not_header by blast
  have es: "\<forall>(hl, body)\<in>set es. is_header hl \<and> (\<forall>b\<in>set body. \<not> is_header b)"
    using assms(2) by fastforce
  have full: "\<forall>(h, s)\<in>set (block_groups hp es). s \<noteq> []"
    using assms(2) fragments_nonempty by (fastforce simp: block_groups_def)
  have g: "input_groups hp (pre @ block_lines es) = ([], []) # block_groups hp es"
    using input_groups_blocks[OF pre es] fragments_blank[OF assms(1)] by simp
  have e: "emitted (input_groups hp (pre @ block_lines es)) = block_groups hp es"
    using emitted_all[OF full] by (simp add: g)
  have fsts: "map fst (block_groups hp es) = map (\<lambda>(hl, body). header_text hp hl) es"
    by (simp add: block_groups_def case_prod_beta comp_def)
  have "parse_fasta_all (pre @ block_lines es) ''list'' euh hp
          = Inr (stored (block_groups hp es))"
    using expected_outcome_distinct[of hp "pre @ block_lines es" "''list''" euh] assms(3)
    by (simp add: parser_refines known_mode_def e fsts)
  also have "stored (block_groups hp es)
          = map (\<lambda>(hl, body). (header_text hp hl, upper (fragments body))) es"
    by (simp add: stored_def block_groups_def case_prod_beta comp_def)
  finally show ?thesis .
qed

theorem well_formed_list_parse_witness:
  "parse_fasta_all
     ([[NL]] @ block_lines [(''>A'' @ [NL], [''mk'' @ [NL], [NL], '' v '' @ [NL]]),
                            (''>B'' @ [NL], [''q'' @ [NL]])])
     ''list'' True None
   = Inr [(''A'', ''MKV''), (''B'', ''Q'')]"
proof -
  let ?es = "[(''>A'' @ [NL], [''mk'' @ [NL], [NL], '' v '' @ [NL]]),
              (''>B'' @ [NL], [''q'' @ [NL]])]"
  have h1: "\<forall>l\<in>set [[NL]]. is_blank l"
    by (simp add: spec_eval text_eval)
  have h2: "\<forall>(hl, body)\<in>set ?es.
         is_header hl \<and> (\<forall>b\<in>set body. \<not> is_header b) \<and> (\<exists>b\<in>set body. is_fragment b)"
    by (simp add: spec_eval text_eval)
  have h3: "distinct (map (\<lambda>(hl, body). header_text None hl) ?es)"
    by (simp add: spec_eval text_eval)
  show ?thesis
    using well_formed_list_parse[OF h1 h2 h3, where euh = True]
    by (simp add: spec_eval text_eval)
qed

subsection \<open>Which headers get a record\<close>

text \<open>
  Claim C2. For an input given as its leading lines \<open>pre\<close> and its blocks \<open>es\<close>, list
  mode without the unique-header check returns the stored form of exactly those groups
  whose text is not empty: the block of a header line gives a record if and only if some
  sequence character stands between that header line and the next header line or the end
  of the input. A header line followed at once by a header line or by the end gives no
  record. In both modes and with either flag, a parse that returns returns these records,
  and no record has an empty sequence.
\<close>

theorem record_iff_sequence_follows:
  assumes "\<forall>l\<in>set pre. \<not> is_header l"
    and "\<forall>(hl, body)\<in>set es. is_header hl \<and> (\<forall>b\<in>set body. \<not> is_header b)"
  shows "parse_fasta_all (pre @ block_lines es) ''list'' False hp
           = Inr (stored (emitted (([], fragments pre) # block_groups hp es)))
       \<and> ((mode = ''list'' \<or> mode = ''dict'')
            \<and> parse_fasta_all (pre @ block_lines es) mode euh hp = Inr recs
          \<longrightarrow> recs = stored (emitted (([], fragments pre) # block_groups hp es))
              \<and> (\<forall>(h, s)\<in>set recs. s \<noteq> []))"
proof -
  note g = input_groups_blocks[OF assms, of hp]
  have a: "parse_fasta_all (pre @ block_lines es) ''list'' False hp
           = Inr (stored (emitted (([], fragments pre) # block_groups hp es)))"
    using expected_outcome_unchecked[of "''list''" False hp "pre @ block_lines es"]
    by (simp add: parser_refines known_mode_def checks_headers_def g)
  have b: "recs = stored (emitted (([], fragments pre) # block_groups hp es))
             \<and> (\<forall>(h, s)\<in>set recs. s \<noteq> [])"
    if m: "mode = ''list'' \<or> mode = ''dict''"
      and r: "parse_fasta_all (pre @ block_lines es) mode euh hp = Inr recs"
  proof -
    have "known_mode mode" using m by (simp add: known_mode_iff)
    then have "expected_outcome mode euh hp (pre @ block_lines es) = Inr recs"
      using r by (simp add: parser_refines)
    from expected_outcome_Inr[OF this]
    have eq: "recs = stored (emitted (([], fragments pre) # block_groups hp es))"
      by (simp only: g)
    moreover have "\<forall>(h, s)\<in>set recs. s \<noteq> []"
      unfolding eq using stored_emitted_nonempty by blast
    ultimately show ?thesis by blast
  qed
  from a b show ?thesis by blast
qed

theorem record_iff_sequence_follows_witness:
  "parse_fasta_all
     ([] @ block_lines [(''>A'' @ [NL], []), (''>B'' @ [NL], [''mk'' @ [NL]]),
                        (''>C'' @ [NL], [[NL]])])
     ''list'' False None
   = Inr [(''B'', ''MK'')]"
proof -
  let ?es = "[(''>A'' @ [NL], []), (''>B'' @ [NL], [''mk'' @ [NL]]), (''>C'' @ [NL], [[NL]])]"
  have h1: "\<forall>l\<in>set ([] :: string list). \<not> is_header l" by simp
  have h2: "\<forall>(hl, body)\<in>set ?es. is_header hl \<and> (\<forall>b\<in>set body. \<not> is_header b)"
    by (simp add: spec_eval text_eval)
  show ?thesis
    using record_iff_sequence_follows[OF h1 h2, where hp = None and mode = "''list''"
                                          and euh = False and recs = "[]"]
    by (simp add: spec_eval text_eval)
qed

subsection \<open>Duplicate headers in dict mode\<close>

text \<open>
  Claim C6. In dict mode, whatever the unique-header flag: when the headers of the
  records of the input (after the header parser) are distinct, the mapping holds every
  record; when a header comes a second time, the parse raises the duplicate-header
  exception for the first header that repeats, so no entry is ever overwritten. The result
  does not depend on the flag.
\<close>

theorem dict_mode_duplicate_always_fails:
  "(distinct (map fst (emitted (input_groups hp content))) \<longrightarrow>
      parse_fasta_all content ''dict'' euh hp = Inr (stored (emitted (input_groups hp content))))
   \<and> (\<not> distinct (map fst (emitted (input_groups hp content))) \<longrightarrow>
      (\<exists>h. first_duplicate [] (map fst (emitted (input_groups hp content))) = Some h
           \<and> parse_fasta_all content ''dict'' euh hp = Inl (DuplicateHeader h)))
   \<and> parse_fasta_all content ''dict'' euh hp = parse_fasta_all content ''dict'' (\<not> euh) hp"
proof -
  have k: "known_mode ''dict''" by (simp add: known_mode_def)
  have c: "checks_headers ''dict'' b" for b by (simp add: checks_headers_def)
  show ?thesis
    using first_duplicate_None[of "[]" "map fst (emitted (input_groups hp content))"]
    by (auto simp: parser_refines[OF k] expected_outcome_def c Let_def split: option.splits)
qed

theorem dict_mode_duplicate_always_fails_witness:
  "\<not> distinct (map fst (emitted (input_groups None
        [''>A'' @ [NL], ''XYZ'' @ [NL], ''>A'' @ [NL], ''QRS'' @ [NL]])))
   \<and> parse_fasta_all [''>A'' @ [NL], ''XYZ'' @ [NL], ''>A'' @ [NL], ''QRS'' @ [NL]]
        ''dict'' False None
      = Inl (DuplicateHeader ''A'')"
  using dict_mode_duplicate_always_fails
          [where hp = None and euh = False
             and content = "[''>A'' @ [NL], ''XYZ'' @ [NL], ''>A'' @ [NL], ''QRS'' @ [NL]]"]
  by (simp add: spec_eval text_eval)

subsection \<open>All records or an exception\<close>



subsection \<open>Sequence lines before the first header line\<close>

text \<open>
  Claim C9 does not hold as stated: sequence lines before the first header line are neither
  skipped nor refused. The parser starts with the empty header, so they become a record
  under that header. On the lines \<open>MKV\<close>, \<open>>A\<close>, \<open>XYZ\<close> the parse returns the two
  records \<open>['', MKV]\<close> and \<open>[A, XYZ]\<close>, where the input without the first line gives
  \<open>[A, XYZ]\<close> alone.
\<close>

theorem leading_fragments_counterexample:
  "parse_fasta_all [''MKV'' @ [NL], ''>A'' @ [NL], ''XYZ'' @ [NL]] ''list'' True None
     = Inr [([], ''MKV''), (''A'', ''XYZ'')]
   \<and> parse_fasta_all [''>A'' @ [NL], ''XYZ'' @ [NL]] ''list'' True None
     = Inr [(''A'', ''XYZ'')]"
  by (simp add: text_eval parser_eval)

text \<open>
  Claim C9, amended. When the lines before the first header line hold sequence text, the
  parse in list or dict mode either raises the duplicate-header exception or returns a
  collection whose first record has the empty header and that text, upper-cased; in list
  mode without the unique-header check it returns that record followed by the records of
  the later groups.
\<close>

theorem leading_fragments_become_a_record:
  assumes "mode = ''list'' \<or> mode = ''dict''"
    and "fragments (leading_lines content) \<noteq> []"
  shows "((\<exists>h. parse_fasta_all content mode euh hp = Inl (DuplicateHeader h))
          \<or> (\<exists>recs. parse_fasta_all content mode euh hp
                      = Inr (([], upper (fragments (leading_lines content))) # recs)))
       \<and> parse_fasta_all content ''list'' False hp
           = Inr (([], upper (fragments (leading_lines content)))
                    # stored (emitted (tl (input_groups hp content))))"
proof -
  have g: "input_groups hp content
             = ([], fragments (leading_lines content)) # tl (input_groups hp content)"
    using groups_first[of hp "[]" "[]" content] by (auto simp: input_groups_def)
  have e: "emitted (input_groups hp content)
             = ([], fragments (leading_lines content)) # emitted (tl (input_groups hp content))"
    by (subst g) (simp add: assms(2))
  have k: "known_mode mode" using assms(1) by (simp add: known_mode_iff)
  have 1: "(\<exists>h. parse_fasta_all content mode euh hp = Inl (DuplicateHeader h))
          \<or> (\<exists>recs. parse_fasta_all content mode euh hp
                      = Inr (([], upper (fragments (leading_lines content))) # recs))"
    by (simp add: parser_refines[OF k] expected_outcome_def Let_def e split: option.splits)
  have 2: "parse_fasta_all content ''list'' False hp
           = Inr (([], upper (fragments (leading_lines content)))
                    # stored (emitted (tl (input_groups hp content))))"
    by (simp add: parser_refines known_mode_def expected_outcome_def Let_def e checks_headers_def)
  from 1 2 show ?thesis by blast
qed

theorem leading_fragments_become_a_record_witness:
  "parse_fasta_all [''MKV'' @ [NL], ''>A'' @ [NL], ''XYZ'' @ [NL]] ''list'' False None
   = Inr [([], ''MKV''), (''A'', ''XYZ'')]"
proof -
  let ?c = "[''MKV'' @ [NL], ''>A'' @ [NL], ''XYZ'' @ [NL]]"
  have h1: "''list'' = ''list'' \<or> ''list'' = ''dict''" by simp
  have h2: "fragments (leading_lines ?c) \<noteq> []" by (simp add: spec_eval text_eval)
  show ?thesis
    using leading_fragments_become_a_record[OF h1 h2, where euh = True and hp = None]
    by (simp add: spec_eval text_eval)
qed

subsection \<open>What the writer writes\<close>

lemma write_chars_eq:
  "write_chars ll i cs st =
     st\<lparr>out := out st @ wrapped ll i cs,
        wrotenewline := (if cs = [] then wrotenewline st
                         else Some (breaks_after ll (i + length cs - 1)))\<rparr>"
proof (induction cs arbitrary: i st)
  case Nil
  then show ?case by simp
next
  case (Cons c cs)
  have step: "write_chars ll i (c # cs) st =
      write_chars ll (Suc i) cs
        (st\<lparr>out := out st @ c # (if breaks_after ll i then [NL] else []),
            wrotenewline := Some (breaks_after ll i)\<rparr>)"
    by (simp add: breaks_after_def Let_def split: option.splits)
  show ?case
    by (subst step, subst Cons.IH) simp
qed

lemma write_entries_append:
  assumes "\<forall>(key, sq)\<in>set d. sq \<noteq> []"
  shows "write_entries ll (d @ d') st =
           write_entries ll d'
             (st\<lparr>out := out st @ concat (map (entry_text ll) d),
                 wrotenewline := (if d = [] then wrotenewline st
                                  else Some (breaks_after ll (length (snd (last d)) - 1)))\<rparr>)"
  using assms
proof (induction d arbitrary: st)
  case Nil
  then show ?case by simp
next
  case (Cons e d)
  obtain key sq where e: "e = (key, sq)" by (cases e)
  from Cons.prems e have sq: "sq \<noteq> []" and rest: "\<forall>(key, sq)\<in>set d. sq \<noteq> []" by auto
  show ?case
    by (cases "breaks_after ll (length sq - 1)")
       (simp_all add: e sq write_chars_eq Cons.IH[OF rest] entry_text_def separator_def)
qed

lemma write_entries_nonempty:
  assumes "\<forall>(key, sq)\<in>set d. sq \<noteq> []"
  shows "write_entries ll d st = (out st @ concat (map (entry_text ll) d), None)"
  using write_entries_append[OF assms, of ll "[]" st] by simp

text \<open>
  For sequences that are not empty the writer writes, entry after entry, the header line,
  the sequence with a line break after every \<open>linelength\<close>-th character, and one line
  break more when the last character was followed by one, two otherwise.
\<close>

lemma write_fasta_file_nonempty:
  assumes "\<forall>(key, sq)\<in>set d. sq \<noteq> []"
  shows "write_fasta_file d linelength
           = (concat (map (entry_text (normalise_linelength linelength)) d), None)"
  using write_entries_nonempty[OF assms] by (simp add: write_fasta_file_def)

lemma writer_wrap_example:
  "write_fasta_file [(''K'', ''ABCDE'')] (Some 2)
     = (''>K'' @ [NL] @ ''AB'' @ [NL] @ ''CD'' @ [NL] @ ''E'' @ [NL, NL], None)"
  by (simp add: writer_eval)

text \<open>
  Claim C4 holds for every sequence that is not empty (\<open>write_fasta_file_nonempty\<close>, and
  \<open>writer_wrap_example\<close> for \<open>ABCDE\<close> at width 2), and fails for the empty sequence, which the
  writer accepts as any other: \<open>wrotenewline\<close> is assigned inside the loop over the
  characters only. For the mapping \<open>{A: ''}\<close> the writer raises after the header line and
  no record end is written; in \<open>{A: ABC, B: '', C: X}\<close> the entry \<open>B\<close> is ended by the
  flag left by \<open>A\<close>, and two blank lines stand between \<open>>B\<close> and \<open>>C\<close>, against the
  comment in the source that there is always only one blank line between sequences.
\<close>

theorem writer_fails_on_empty_sequence:
  "write_fasta_file [(''A'', [])] (Some 2)
     = (''>A'' @ [NL], Some (UnboundLocalError ''wrotenewline''))
   \<and> write_fasta_file [(''A'', ''ABC''), (''B'', []), (''C'', ''X'')] (Some 2)
     = (''>A'' @ [NL] @ ''AB'' @ [NL] @ ''C'' @ [NL, NL]
          @ ''>B'' @ [NL] @ [NL, NL]
          @ ''>C'' @ [NL] @ ''X'' @ [NL, NL], None)"
  by (simp add: writer_eval)

text \<open>
  Claim C10. When the first entry of the mapping has an empty sequence, whatever the
  other entries and the line length, the writer writes the header line and raises the
  exception for the unbound local \<open>wrotenewline\<close>. When an entry with an empty sequence
  comes after entries \<open>d\<close> with sequences that are not empty, what is written after its
  header line is the separator of the last sequence of \<open>d\<close>: one line break when that
  sequence ended on a line break, two otherwise.
\<close>

theorem empty_sequence_breaks_writer:
  "write_fasta_file ((key, []) # rest) linelength
     = (''>'' @ key @ [NL], Some (UnboundLocalError ''wrotenewline''))
   \<and> (d \<noteq> [] \<and> (\<forall>(k, sq)\<in>set d. sq \<noteq> []) \<longrightarrow>
        write_fasta_file (d @ [(key, [])]) linelength
          = (concat (map (entry_text (normalise_linelength linelength)) d)
               @ ''>'' @ key @ [NL]
               @ separator (normalise_linelength linelength) (snd (last d)), None))"
proof -
  have 1: "write_fasta_file ((key, []) # rest) linelength
     = (''>'' @ key @ [NL], Some (UnboundLocalError ''wrotenewline''))"
    by (simp add: write_fasta_file_def)
  have 2: "write_fasta_file (d @ [(key, [])]) linelength
          = (concat (map (entry_text (normalise_linelength linelength)) d)
               @ ''>'' @ key @ [NL]
               @ separator (normalise_linelength linelength) (snd (last d)), None)"
    if "d \<noteq> []" "\<forall>(k, sq)\<in>set d. sq \<noteq> []"
    using that write_entries_append[OF that(2), of "normalise_linelength linelength" "[(key, [])]"]
    by (simp add: write_fasta_file_def separator_def)
  from 1 2 show ?thesis by blast
qed

theorem empty_sequence_breaks_writer_witness:
  "write_fasta_file ([(''A'', ''AB'')] @ [(''B'', [])]) (Some 2)
     = (''>A'' @ [NL] @ ''AB'' @ [NL] @ [NL] @ ''>B'' @ [NL] @ [NL], None)
   \<and> write_fasta_file ([(''A'', ''ABC'')] @ [(''B'', [])]) (Some 2)
     = (''>A'' @ [NL] @ ''AB'' @ [NL] @ ''C'' @ [NL, NL] @ ''>B'' @ [NL] @ [NL, NL], None)"
  using empty_sequence_breaks_writer
          [where key = "''B''" and rest = "[]" and linelength = "Some 2"
             and d = "[(''A'', ''AB'')]"]
        empty_sequence_breaks_writer
          [where key = "''B''" and rest = "[]" and linelength = "Some 2"
             and d = "[(''A'', ''ABC'')]"]
  by (simp add: entry_text_def separator_def breaks_after_def normalise_linelength_def)

subsection \<open>Reading back what the writer wrote\<close>

lemma isspace_NL_CR [simp]: "isspace NL" "isspace CR"
  by (simp_all add: isspace_def whitespace_def)

lemma not_isspace_gt [simp]: "\<not> isspace (CHR ''>'')"
  by (simp add: isspace_def whitespace_def)

lemma dropWhile_unchanged: "xs = [] \<or> \<not> P (hd xs) \<Longrightarrow> dropWhile P xs = xs"
  by (cases xs) auto

lemma strip_solid_line:
  assumes "\<forall>c\<in>set cur. \<not> isspace c"
  shows "strip (cur @ [NL]) = cur"
proof (cases cur)
  case Nil
  then show ?thesis by (simp add: strip_def lstrip_def rstrip_def)
next
  case (Cons c cs)
  have l: "lstrip (cur @ [NL]) = cur @ [NL]"
    using assms Cons by (simp add: lstrip_def)
  have ne: "cur \<noteq> []" using Cons by simp
  then have "\<not> isspace (last cur)" using assms last_in_set by blast
  then have "\<not> isspace (hd (rev cur))" using ne by (simp add: hd_rev)
  then have "dropWhile isspace (rev cur) = rev cur"
    by (intro dropWhile_unchanged) simp
  then show ?thesis by (simp add: strip_def l rstrip_def)
qed

lemma strip_header_line:
  assumes "rstrip key = key"
  shows "strip (CHR ''>'' # key @ [NL]) = CHR ''>'' # key"
proof -
  have l: "lstrip (CHR ''>'' # key @ [NL]) = CHR ''>'' # key @ [NL]"
    by (simp add: lstrip_def)
  have k: "dropWhile isspace (rev key) = rev key"
    using assms by (metis rev_rev_ident rstrip_def)
  have "dropWhile isspace (rev key @ [CHR ''>'']) = rev key @ [CHR ''>'']"
  proof (cases key)
    case Nil
    then show ?thesis by simp
  next
    case (Cons a as)
    then have "rev key \<noteq> []" by simp
    moreover have "\<not> isspace (hd (rev key))"
      using k \<open>rev key \<noteq> []\<close> by (metis dropWhile_eq_Nil_conv hd_dropWhile)
    ultimately show ?thesis by (intro dropWhile_unchanged) simp
  qed
  then show ?thesis by (simp add: strip_def l rstrip_def)
qed

lemma readlines_from_line:
  assumes "NL \<notin> set k" "CR \<notin> set k"
  shows "readlines_from cur (k @ NL # rest) = (cur @ k @ [NL]) # readlines_from [] rest"
  using assms by (induction k arbitrary: cur) auto

lemma groups_header_line:
  assumes "NL \<notin> set key" "CR \<notin> set key" "rstrip key = key"
  shows "groups None h s (readlines_from [] (CHR ''>'' # key @ NL # rest))
           = (h, s) # groups None key [] (readlines_from [] rest)"
proof -
  have "readlines_from [] ((CHR ''>'' # key) @ NL # rest)
          = ([] @ (CHR ''>'' # key) @ [NL]) # readlines_from [] rest"
    using assms(1,2) by (intro readlines_from_line) auto
  then have r: "readlines_from [] (CHR ''>'' # key @ NL # rest)
          = (CHR ''>'' # key @ [NL]) # readlines_from [] rest" by simp
  have h: "is_header (CHR ''>'' # key @ [NL])"
    by (simp add: is_header_def strip_header_line[OF assms(3)])
  have t: "header_text None (CHR ''>'' # key @ [NL]) = key"
    by (simp add: header_text_def strip_header_line[OF assms(3)])
  show ?thesis by (simp only: r groups_header[OF h] t)
qed

lemma groups_solid_line:
  assumes "\<forall>c\<in>set cur. \<not> isspace c \<and> c \<noteq> CHR ''>''"
  shows "groups hp h s ((cur @ [NL]) # ls) = groups hp h (s @ cur) ls"
proof -
  have st: "strip (cur @ [NL]) = cur" using assms by (intro strip_solid_line) blast
  show ?thesis
  proof (cases cur)
    case Nil
    then show ?thesis using st by (simp add: is_blank_def)
  next
    case (Cons c cs)
    then have "c \<noteq> CHR ''>''" using assms by simp
    then show ?thesis using st Cons by (simp add: is_blank_def is_header_def)
  qed
qed

lemma groups_wrapped:
  assumes "\<forall>c\<in>set cur. \<not> isspace c \<and> c \<noteq> CHR ''>''"
    and "\<forall>c\<in>set cs. \<not> isspace c \<and> c \<noteq> CHR ''>''"
  shows "groups hp h s (readlines_from cur (wrapped ll i cs @ NL # rest))
           = groups hp h (s @ cur @ cs) (readlines_from [] rest)"
  using assms
proof (induction cs arbitrary: cur i s)
  case Nil
  then show ?case by (simp add: groups_solid_line del: groups.simps)
next
  case (Cons c cs)
  from Cons.prems have c: "\<not> isspace c" "c \<noteq> CHR ''>''"
    and cs: "\<forall>c\<in>set cs. \<not> isspace c \<and> c \<noteq> CHR ''>''" by auto
  from c have nl: "c \<noteq> NL" "c \<noteq> CR" using isspace_NL_CR by blast+
  have cur': "\<forall>x\<in>set (cur @ [c]). \<not> isspace x \<and> x \<noteq> CHR ''>''"
    using Cons.prems(1) c by auto
  show ?case
  proof (cases "breaks_after ll i")
    case True
    have "groups hp h s (readlines_from cur (wrapped ll i (c # cs) @ NL # rest))
          = groups hp h s (((cur @ [c]) @ [NL])
              # readlines_from [] (wrapped ll (i + 1) cs @ NL # rest))"
      using True nl by simp
    also have "\<dots> = groups hp h (s @ cur @ [c])
                       (readlines_from [] (wrapped ll (i + 1) cs @ NL # rest))"
      using groups_solid_line[OF cur'] by simp
    also have "\<dots> = groups hp h ((s @ cur @ [c]) @ [] @ cs) (readlines_from [] rest)"
      by (rule Cons.IH[OF _ cs]) simp
    finally show ?thesis by simp
  next
    case False
    have "groups hp h s (readlines_from cur (wrapped ll i (c # cs) @ NL # rest))
          = groups hp h s (readlines_from (cur @ [c]) (wrapped ll (i + 1) cs @ NL # rest))"
      using False nl by simp
    also have "\<dots> = groups hp h (s @ (cur @ [c]) @ cs) (readlines_from [] rest)"
      by (rule Cons.IH[OF cur' cs])
    finally show ?thesis by simp
  qed
qed

lemma groups_blank_line: "groups hp h s ([NL] # ls) = groups hp h s ls"
  by (simp add: is_blank_def strip_def lstrip_def rstrip_def)

lemma groups_entry:
  assumes "NL \<notin> set key" "CR \<notin> set key" "rstrip key = key"
    and "\<forall>c\<in>set sq. \<not> isspace c \<and> c \<noteq> CHR ''>''"
  shows "groups None h s (readlines_from [] (entry_text ll (key, sq) @ rest))
           = (h, s) # groups None key sq (readlines_from [] rest)"
proof -
  have w: "groups None key [] (readlines_from [] (wrapped ll 0 sq @ NL # tail))
             = groups None key sq (readlines_from [] tail)" for tail
    using groups_wrapped[of "[]" sq None key "[]" ll 0 tail] assms(4) by simp
  have "groups None h s (readlines_from [] (entry_text ll (key, sq) @ rest))
      = (h, s) # groups None key [] (readlines_from [] (wrapped ll 0 sq @ separator ll sq @ rest))"
    using groups_header_line[OF assms(1-3)] by (simp add: entry_text_def)
  also have "groups None key [] (readlines_from [] (wrapped ll 0 sq @ separator ll sq @ rest))
      = groups None key sq (readlines_from [] rest)"
  proof (cases "breaks_after ll (length sq - 1)")
    case True
    then show ?thesis using w[of rest] by (simp add: separator_def)
  next
    case False
    then show ?thesis using w[of "NL # rest"]
      by (simp add: separator_def groups_blank_line del: groups.simps)
  qed
  finally show ?thesis .
qed

lemma groups_entries:
  assumes "\<forall>(key, sq)\<in>set d. NL \<notin> set key \<and> CR \<notin> set key \<and> rstrip key = key
              \<and> (\<forall>c\<in>set sq. \<not> isspace c \<and> c \<noteq> CHR ''>'')"
  shows "groups None h s (readlines_from [] (concat (map (entry_text ll) d))) = (h, s) # d"
  using assms
proof (induction d arbitrary: h s)
  case Nil
  then show ?case by simp
next
  case (Cons e d)
  obtain key sq where e: "e = (key, sq)" by (cases e)
  from Cons.prems e have k: "NL \<notin> set key" "CR \<notin> set key" "rstrip key = key"
    "\<forall>c\<in>set sq. \<not> isspace c \<and> c \<noteq> CHR ''>''"
    and rest: "\<forall>(key, sq)\<in>set d. NL \<notin> set key \<and> CR \<notin> set key \<and> rstrip key = key
              \<and> (\<forall>c\<in>set sq. \<not> isspace c \<and> c \<noteq> CHR ''>'')"
    by auto
  show ?case
    using groups_entry[OF k, of h s ll "concat (map (entry_text ll) d)"] Cons.IH[OF rest]
    by (simp add: e)
qed

text \<open>
  Claim C3 does not hold for every mapping. The parser itself returns the mapping
  \<open>{A: X>Y}\<close> for the lines \<open>>A\<close>, \<open>X>Y\<close>; written with line length 1, the text has the
  line \<open>>\<close> of its own, and parsing it gives the two records \<open>[A, X]\<close> and \<open>['', Y]\<close>.
\<close>

theorem round_trip_counterexample:
  "parse_fasta_all [''>A'' @ [NL], ''X>Y'' @ [NL]] ''dict'' True None = Inr [(''A'', ''X>Y'')]
   \<and> write_fasta_file [(''A'', ''X>Y'')] (Some 1)
     = (''>A'' @ [NL] @ ''X'' @ [NL] @ ''>'' @ [NL] @ ''Y'' @ [NL] @ [NL], None)
   \<and> parse_fasta_all (readlines (fst (write_fasta_file [(''A'', ''X>Y'')] (Some 1))))
        ''dict'' True None
     = Inr [(''A'', ''X''), ([], ''Y'')]"
  by (simp add: writer_eval text_eval parser_eval)

text \<open>
  The other conditions of the amended claim are needed as well: white space inside a
  sequence is lost where a line ends on it, and white space at the end of a header is
  trimmed with the line.
\<close>

lemma round_trip_loses_white_space:
  "parse_fasta_all (readlines (fst (write_fasta_file [(''A'', ''M K'')] (Some 2))))
        ''list'' True None
     = Inr [(''A'', ''MK'')]
   \<and> parse_fasta_all (readlines (fst (write_fasta_file [(''A '', ''MK'')] None)))
        ''list'' True None
     = Inr [(''A'', ''MK'')]"
  by (simp add: writer_eval text_eval parser_eval)

text \<open>
  Claim C3, amended. For a mapping whose headers hold no line break and do not end in
  white space, and whose sequences are not empty and hold neither white space nor \<open>>\<close>,
  for every line length (any integer, or none): the writer returns without exception, and
  the text it wrote, read into lines and parsed in list or dict mode with either flag and
  no header parser, gives the entries of the mapping, in order, each with its header and
  with its sequence upper-cased.
\<close>

theorem write_then_parse:
  assumes "distinct (map fst d)"
    and "\<forall>(key, sq)\<in>set d.
           NL \<notin> set key \<and> CR \<notin> set key \<and> rstrip key = key
           \<and> sq \<noteq> [] \<and> (\<forall>c\<in>set sq. \<not> isspace c \<and> c \<noteq> CHR ''>'')"
    and "mode = ''list'' \<or> mode = ''dict''"
  shows "\<exists>t. write_fasta_file d linelength = (t, None)
           \<and> parse_fasta_all (readlines t) mode euh None
               = Inr (map (\<lambda>(key, sq). (key, upper sq)) d)"
proof -
  let ?ll = "normalise_linelength linelength"
  let ?t = "concat (map (entry_text ?ll) d)"
  have ne: "\<forall>(key, sq)\<in>set d. sq \<noteq> []" using assms(2) by fastforce
  have ok: "\<forall>(key, sq)\<in>set d. NL \<notin> set key \<and> CR \<notin> set key \<and> rstrip key = key
              \<and> (\<forall>c\<in>set sq. \<not> isspace c \<and> c \<noteq> CHR ''>'')" using assms(2) by fastforce
  have w: "write_fasta_file d linelength = (?t, None)"
    by (rule write_fasta_file_nonempty[OF ne])
  have g: "input_groups None (readlines ?t) = ([], []) # d"
    using groups_entries[OF ok, of "[]" "[]" ?ll] by (simp add: input_groups_def readlines_def)
  have e: "emitted (input_groups None (readlines ?t)) = d"
    using emitted_all[OF ne] by (simp add: g)
  have k: "known_mode mode" using assms(3) by (simp add: known_mode_iff)
  have "parse_fasta_all (readlines ?t) mode euh None = Inr (stored d)"
    using expected_outcome_distinct[of None "readlines ?t" mode euh] assms(1)
    by (simp add: parser_refines[OF k] e)
  then have "parse_fasta_all (readlines ?t) mode euh None
               = Inr (map (\<lambda>(key, sq). (key, upper sq)) d)"
    by (simp add: stored_def)
  with w show ?thesis by blast
qed

theorem write_then_parse_witness:
  "\<exists>t. write_fasta_file [(''A'', ''mkv''), (''B'', ''QR'')] (Some 2) = (t, None)
      \<and> parse_fasta_all (readlines t) ''list'' True None = Inr [(''A'', ''MKV''), (''B'', ''QR'')]"
proof -
  let ?d = "[(''A'', ''mkv''), (''B'', ''QR'')]"
  have h1: "distinct (map fst ?d)" by simp
  have h2: "\<forall>(key, sq)\<in>set ?d.
           NL \<notin> set key \<and> CR \<notin> set key \<and> rstrip key = key
           \<and> sq \<noteq> [] \<and> (\<forall>c\<in>set sq. \<not> isspace c \<and> c \<noteq> CHR ''>'')"
    by (simp add: text_eval)
  have h3: "''list'' = ''list'' \<or> ''list'' = ''dict''" by simp
  show ?thesis
    using write_then_parse[OF h1 h2 h3, where linelength = "Some 2" and euh = True]
    by (simp add: text_eval)
qed

subsection \<open>Ignoring duplicate records while expecting unique headers\<close>

text \<open>
  When \<open>duplicate_record_action\<close> is the very object of the literal \<open>'ignore'\<close> and
  unique headers are expected, validation fails, whatever the other valid options.
\<close>

lemma check_inputs_same_object:
  assumes "is_bool return_list" "is_bool verbose"
    and "is_none header_parser \<or> header_parser_works header_parser"
    and "in_literals duplicate_sequence_action [''ignore'', ''fail'', ''remove'']"
    and "in_literals invalid_sequence_action [''ignore'', ''fail'', ''remove'', ''convert'']"
    and "is_none output_filename \<or> is_str output_filename"
  shows "check_inputs (PyBool True) header_parser ignore_literal duplicate_sequence_action
           invalid_sequence_action return_list output_filename verbose
         = Inl (ConfigError ''Cannot expect unique headers and ignore duplicate records'')"
proof -
  have c: "header_parser_works header_parser \<Longrightarrow> callable header_parser"
    by (cases header_parser) (simp_all add: header_parser_works_def callable_def)
  show ?thesis
    using assms c
    by (auto simp: check_inputs_def is_bool_def in_literals_def ignore_literal_def py_is_def)
qed

text \<open>
  Claim C8 fails for a string that equals \<open>'ignore'\<close> without being the object of the
  literal (one built or read at run time): the source compares with \<open>is\<close>, not \<open>==\<close>.
  Such a string passes the membership test, then the identity test is false and
  \<open>check_inputs\<close> returns normally although unique headers are expected.
\<close>

theorem check_inputs_misses_equal_string:
  "check_inputs (PyBool True) PyNone (PyStr 1 ''ignore'') (PyStr 2 ''fail'') (PyStr 3 ''fail'')
     (PyBool True) PyNone (PyBool False) = Inr ()
   \<and> in_literals (PyStr 1 ''ignore'') [''ignore'']"
  by (simp add: check_eval)

end
